theory Spec2Isabelle
  imports Complex_Main "HOL-Library.Word" "HOL-Library.Sublist"
begin

section \<open>Python sequence primitives\<close>

text \<open>
  Bytes are 8-bit words; a \<^verbatim>\<open>bytes\<close>/\<^verbatim>\<open>bytearray\<close> value is a list of them.
  Python integers are unbounded, so lengths, sizes and indices that the source
  computes with are \<open>int\<close>.
\<close>

type_synonym byte = "8 word"

text \<open>\<^verbatim>\<open>xs[i:]\<close>: a negative start counts from the end and is clipped at 0.\<close>

definition py_slice_from :: "'a list \<Rightarrow> int \<Rightarrow> 'a list" where
  "py_slice_from xs i =
     (if i < 0 then drop (nat (max 0 (int (length xs) + i))) xs else drop (nat i) xs)"

text \<open>\<^verbatim>\<open>xs[:k]\<close> and \<^verbatim>\<open>del xs[:k]\<close>: a negative stop counts from the end.\<close>

definition py_stop :: "'a list \<Rightarrow> int \<Rightarrow> nat" where
  "py_stop xs k = (if k < 0 then nat (max 0 (int (length xs) + k)) else min (length xs) (nat k))"

definition py_slice_to :: "'a list \<Rightarrow> int \<Rightarrow> 'a list" where
  "py_slice_to xs k = take (py_stop xs k) xs"

definition py_del_to :: "'a list \<Rightarrow> int \<Rightarrow> 'a list" where
  "py_del_to xs k = drop (py_stop xs k) xs"

text \<open>
  \<^verbatim>\<open>xs.find(sub)\<close>: the lowest index at which \<open>sub\<close> occurs, \<open>None\<close> for Python's -1.
  \<^verbatim>\<open>xs.find(sub, start)\<close> searches \<^verbatim>\<open>xs[start:]\<close> for a non-negative start.
\<close>

fun starts_with :: "'a list \<Rightarrow> 'a list \<Rightarrow> bool" where
  "starts_with xs [] = True"
| "starts_with [] (p # ps) = False"
| "starts_with (x # xs) (p # ps) = (x = p \<and> starts_with xs ps)"

fun find_sub :: "'a list \<Rightarrow> 'a list \<Rightarrow> nat option" where
  "find_sub sub [] = (if sub = [] then Some 0 else None)"
| "find_sub sub (x # xs) =
     (if starts_with (x # xs) sub then Some 0 else map_option Suc (find_sub sub xs))"

definition find_from :: "'a list \<Rightarrow> 'a list \<Rightarrow> nat \<Rightarrow> nat option" where
  "find_from sub xs start =
     (if length xs < start then None
      else map_option (\<lambda>i. i + start) (find_sub sub (drop start xs)))"

section \<open>StreamBuffer (sdk/dongle/buffer.py)\<close>

record stream_buffer =
  max_size :: int
  buffer :: "byte list"
  overflow_count :: int

definition new_buffer :: "int \<Rightarrow> stream_buffer" where
  "new_buffer m = \<lparr>max_size = m, buffer = [], overflow_count = 0\<rparr>"

definition buffer_write :: "stream_buffer \<Rightarrow> byte list \<Rightarrow> stream_buffer" where
  "buffer_write sb data =
     (if data = [] then sb
      else if int (length data) \<ge> max_size sb then
        sb\<lparr>buffer := py_slice_from data (- max_size sb),
           overflow_count := overflow_count sb + 1\<rparr>
      else
        let current_len = int (length (buffer sb));
            new_len = current_len + int (length data);
            sb1 = (if new_len > max_size sb then
                     sb\<lparr>buffer := py_del_to (buffer sb) (new_len - max_size sb),
                        overflow_count := overflow_count sb + 1\<rparr>
                   else sb)
        in sb1\<lparr>buffer := buffer sb1 @ data\<rparr>)"

definition read :: "stream_buffer \<Rightarrow> int \<Rightarrow> byte list \<times> stream_buffer" where
  "read sb n =
     (if buffer sb = [] then ([], sb)
      else if n < 0 \<or> n \<ge> int (length (buffer sb)) then (buffer sb, sb\<lparr>buffer := []\<rparr>)
      else (py_slice_to (buffer sb) n, sb\<lparr>buffer := py_del_to (buffer sb) n\<rparr>))"

definition newline :: byte where
  "newline = 0x0A"

definition read_line :: "stream_buffer \<Rightarrow> byte list \<times> stream_buffer" where
  "read_line sb =
     (case find_sub [newline] (buffer sb) of
        None \<Rightarrow> ([], sb)
      | Some idx \<Rightarrow>
          let end = int idx + 1
          in (py_slice_to (buffer sb) end, sb\<lparr>buffer := py_del_to (buffer sb) end\<rparr>))"

definition buffer_size :: "stream_buffer \<Rightarrow> int" where
  "buffer_size sb = int (length (buffer sb))"

definition clear :: "stream_buffer \<Rightarrow> stream_buffer" where
  "clear sb = sb\<lparr>buffer := []\<rparr>"

text \<open>A caller's operation on the buffer, and a run of them from left to right.\<close>

datatype buffer_op = Write "byte list" | Read int | ReadLine | Clear

fun buffer_step :: "stream_buffer \<Rightarrow> buffer_op \<Rightarrow> stream_buffer" where
  "buffer_step sb (Write data) = buffer_write sb data"
| "buffer_step sb (Read n) = snd (read sb n)"
| "buffer_step sb ReadLine = snd (read_line sb)"
| "buffer_step sb Clear = clear sb"

fun buffer_run :: "stream_buffer \<Rightarrow> buffer_op list \<Rightarrow> stream_buffer" where
  "buffer_run sb [] = sb"
| "buffer_run sb (x # xs) = buffer_run (buffer_step sb x) xs"

section \<open>Status frames (sdk/dongle/status.py, sdk/dongle/status_monitor.py)\<close>

text \<open>
  Python text is modelled as \<open>string\<close>; \<^verbatim>\<open>str.strip()\<close> removes the characters for
  which \<^verbatim>\<open>str.isspace()\<close> holds, which among the first 256 code points are
  9 to 13, 28 to 32, 133 and 160.
\<close>

definition py_isspace :: "char \<Rightarrow> bool" where
  "py_isspace c =
     (let n = (of_char c :: nat)
      in (9 \<le> n \<and> n \<le> 13) \<or> (28 \<le> n \<and> n \<le> 32) \<or> n = 133 \<or> n = 160)"

definition py_lstrip :: "(char \<Rightarrow> bool) \<Rightarrow> string \<Rightarrow> string" where
  "py_lstrip P s = dropWhile P s"

definition py_rstrip :: "(char \<Rightarrow> bool) \<Rightarrow> string \<Rightarrow> string" where
  "py_rstrip P s = rev (dropWhile P (rev s))"

definition py_strip :: "string \<Rightarrow> string" where
  "py_strip s = py_rstrip py_isspace (py_lstrip py_isspace s)"

definition ESC_STATUS_START :: "byte list" where
  "ESC_STATUS_START =
     [0xFF, 0x34, 0x5B, 0x53, 0x54, 0x41, 0x54, 0x55, 0x53, 0x5F,
      0x52, 0x45, 0x53, 0x50, 0x4F, 0x4E, 0x53, 0x45, 0x5D]"

definition ESC_STATUS_END :: "byte list" where
  "ESC_STATUS_END = [0xFF, 0x34]"

definition MAX_BUFFER_SIZE :: nat where
  "MAX_BUFFER_SIZE = 64 * 1024"

text \<open>
  The value \<^verbatim>\<open>json.loads\<close> returns. An object is the dict the parser built, as its
  items; \<open>dict_get\<close> is \<^verbatim>\<open>dict.get(key, default)\<close>.
\<close>

datatype json =
  JNull | JBool bool | JInt int | JFloat real | JStr string
  | JArr "json list" | JObj "(string \<times> json) list"

definition dict_get :: "(string \<times> json) list \<Rightarrow> string \<Rightarrow> json \<Rightarrow> json" where
  "dict_get d k dflt = (case map_of d k of None \<Rightarrow> dflt | Some v \<Rightarrow> v)"

record dongle_status =
  timestamp :: real
  device :: json
  firmware_version :: json
  uptime_ms :: json
  usb_present :: json
  usb_serial_connected :: json
  bluetooth_connected :: json
  nus_subscribed :: json
  bt_mtu :: json
  max_payload :: json
  usb_rx_bps :: json
  ble_rx_bps :: json
  led_mode :: json
  raw_json :: json

datatype py_exn = AttributeError

text \<open>
  \<^verbatim>\<open>DongleStatus.from_json(json_data)\<close> with no timestamp given: the capture time is
  the clock reading \<open>now\<close>. Every field is read with \<^verbatim>\<open>json_data.get\<close>, which only a
  dict has: any other JSON value raises \<^verbatim>\<open>AttributeError\<close>.
\<close>

fun from_json :: "json \<Rightarrow> real \<Rightarrow> py_exn + dongle_status" where
  "from_json (JObj d) now =
     Inr \<lparr>timestamp = now,
          device = dict_get d ''device'' JNull,
          firmware_version = dict_get d ''version'' JNull,
          uptime_ms = dict_get d ''uptime_ms'' (JInt 0),
          usb_present = dict_get d ''usb_present'' (JBool False),
          usb_serial_connected = dict_get d ''usb_serial_connected'' (JBool False),
          bluetooth_connected = dict_get d ''bt_connected'' (JBool False),
          nus_subscribed = dict_get d ''nus_subscribed'' (JBool False),
          bt_mtu = dict_get d ''bt_mtu'' (JInt 0),
          max_payload = dict_get d ''max_payload'' (JInt 0),
          usb_rx_bps = dict_get d ''usb_rx_bps'' (JInt 0),
          ble_rx_bps = dict_get d ''ble_rx_bps'' (JInt 0),
          led_mode = dict_get d ''led_mode'' JNull,
          raw_json = JObj d\<rparr>"
| "from_json _ now = Inl AttributeError"

text \<open>
  What \<open>parse_status_json\<close> takes from outside the repository: the UTF-8 decoder
  (\<^verbatim>\<open>bytes.decode('utf-8', errors='ignore')\<close>), the JSON parser (\<^verbatim>\<open>json.loads\<close>,
  \<open>None\<close> when it raises \<^verbatim>\<open>JSONDecodeError\<close>) and the clock (\<^verbatim>\<open>time.time()\<close>).
\<close>

record json_lib =
  utf8_decode :: "byte list \<Rightarrow> string"
  json_loads :: "string \<Rightarrow> json option"
  clock :: real

text \<open>
  \<open>Inr None\<close> is the \<^verbatim>\<open>None\<close> returned on an empty or undecodable payload,
  \<open>Inl\<close> an exception that the \<^verbatim>\<open>except\<close> clause does not catch.
\<close>

definition parse_status_json :: "json_lib \<Rightarrow> byte list \<Rightarrow> py_exn + dongle_status option" where
  "parse_status_json lib json_bytes =
     (let json_str = py_strip (utf8_decode lib json_bytes)
      in if json_str = [] then Inr None
         else case json_loads lib json_str of
                None \<Rightarrow> Inr None
              | Some data \<Rightarrow>
                  (case from_json data (clock lib) of
                     Inl e \<Rightarrow> Inl e
                   | Inr status \<Rightarrow> Inr (Some status)))"

record status_monitor =
  mon_buffer :: "byte list"
  latest_status :: "dongle_status option"

definition trim_buffer :: "byte list \<Rightarrow> byte list" where
  "trim_buffer buf =
     (if length buf \<le> MAX_BUFFER_SIZE then buf
      else py_slice_from buf (- int MAX_BUFFER_SIZE))"

text \<open>
  \<open>try_extract_status\<close> returns the buffer it leaves behind and what the method
  returns or raises.
\<close>

definition try_extract_status ::
  "json_lib \<Rightarrow> byte list \<Rightarrow> byte list \<times> (py_exn + dongle_status option)" where
  "try_extract_status lib buf =
     (case find_sub ESC_STATUS_START buf of
        None \<Rightarrow> (buf, Inr None)
      | Some start_idx \<Rightarrow>
          let json_start = start_idx + length ESC_STATUS_START
          in (case find_from ESC_STATUS_END buf json_start of
                None \<Rightarrow> (buf, Inr None)
              | Some end_idx \<Rightarrow>
                  let json_bytes = take (end_idx - json_start) (drop json_start buf);
                      buf' = drop (end_idx + length ESC_STATUS_END) buf
                  in (buf', parse_status_json lib json_bytes)))"

text \<open>
  The extraction loop of \<open>_process_chunk\<close> runs while a status comes back; every
  such round removes a whole frame from the buffer, which is why it ends.
\<close>

lemma starts_with_iff: "starts_with xs ps \<longleftrightarrow> take (length ps) xs = ps \<and> length ps \<le> length xs"
  by (induction xs ps rule: starts_with.induct) auto

lemma find_sub_le: "find_sub sub xs = Some i \<Longrightarrow> i + length sub \<le> length xs"
proof (induction xs arbitrary: i)
  case Nil
  then show ?case by (simp split: if_splits)
next
  case (Cons x xs)
  show ?case
  proof (cases "starts_with (x # xs) sub")
    case True
    with Cons.prems show ?thesis by (simp add: starts_with_iff)
  next
    case False
    with Cons.prems obtain j where "find_sub sub xs = Some j" "i = Suc j" by auto
    with Cons.IH show ?thesis by simp
  qed
qed

lemma try_extract_status_shrinks:
  assumes "try_extract_status lib buf = (buf', Inr (Some status))"
  shows "length buf' < length buf"
proof -
  from assms obtain start_idx end_idx where
    e: "find_from ESC_STATUS_END buf (start_idx + length ESC_STATUS_START) = Some end_idx"
    and b: "buf' = drop (end_idx + length ESC_STATUS_END) buf"
    by (auto simp: try_extract_status_def Let_def split: option.splits)
  let ?js = "start_idx + length ESC_STATUS_START"
  from e obtain i where i: "find_sub ESC_STATUS_END (drop ?js buf) = Some i"
    and le: "?js \<le> length buf" and ei: "end_idx = i + ?js"
    by (auto simp: find_from_def split: if_splits)
  from find_sub_le [OF i] le ei have "end_idx + length ESC_STATUS_END \<le> length buf"
    by simp
  moreover have "length ESC_STATUS_END = 2" by (simp add: ESC_STATUS_END_def)
  ultimately show ?thesis using b by simp
qed

function process_loop ::
  "json_lib \<Rightarrow> status_monitor \<Rightarrow> status_monitor \<times> dongle_status list \<times> py_exn option" where
  "process_loop lib m =
     (case try_extract_status lib (mon_buffer m) of
        (buf', Inl e) \<Rightarrow> (m\<lparr>mon_buffer := buf'\<rparr>, [], Some e)
      | (buf', Inr None) \<Rightarrow> (m\<lparr>mon_buffer := buf'\<rparr>, [], None)
      | (buf', Inr (Some status)) \<Rightarrow>
          (case process_loop lib (m\<lparr>mon_buffer := buf', latest_status := Some status\<rparr>) of
             (m', notified, e) \<Rightarrow> (m', status # notified, e)))"
  by pat_completeness auto
termination
  by (relation "measure (\<lambda>(lib, m). length (mon_buffer m))")
     (auto dest: try_extract_status_shrinks [OF sym])

declare process_loop.simps [simp del]

text \<open>
  \<open>process_chunk\<close> gives the monitor after the chunk, the statuses passed to the
  subscribers in order, and the exception that left the method, if one did.
\<close>

definition process_chunk ::
  "json_lib \<Rightarrow> status_monitor \<Rightarrow> byte list \<Rightarrow> status_monitor \<times> dongle_status list \<times> py_exn option" where
  "process_chunk lib m chunk =
     process_loop lib (m\<lparr>mon_buffer := trim_buffer (mon_buffer m @ chunk)\<rparr>)"

text \<open>
  \<open>process_pending\<close> on the queued chunks, oldest first: empty chunks are skipped, and
  an exception ends the call with the later chunks still queued.
\<close>

fun process_pending ::
  "json_lib \<Rightarrow> status_monitor \<Rightarrow> byte list list \<Rightarrow> status_monitor \<times> dongle_status list \<times> py_exn option" where
  "process_pending lib m [] = (m, [], None)"
| "process_pending lib m (chunk # queue) =
     (if chunk = [] then process_pending lib m queue
      else case process_chunk lib m chunk of
             (m', notified, Some e) \<Rightarrow> (m', notified, Some e)
           | (m', notified, None) \<Rightarrow>
               (case process_pending lib m' queue of
                  (m'', notified', e) \<Rightarrow> (m'', notified @ notified', e)))"

definition new_monitor :: status_monitor where
  "new_monitor = \<lparr>mon_buffer = [], latest_status = None\<rparr>"

text \<open>
  A library instance for concrete runs: every byte decodes to the code point of the same
  number (as UTF-8 does below 128), the parser accepts the text of the empty object and
  raises \<^verbatim>\<open>JSONDecodeError\<close> on anything else it is given here, and the clock reads 0.
\<close>

definition sample_lib :: json_lib where
  "sample_lib =
     \<lparr>utf8_decode = map (\<lambda>b. char_of (unat b)),
      json_loads = (\<lambda>s. if s = ''{}'' then Some (JObj []) else None),
      clock = 0\<rparr>"

section \<open>Models and StateBuilder (sdk/models.py, sdk/protocol/state_builder.py)\<close>

text \<open>
  Python floats are modelled as real numbers: rounding, infinities and NaN are outside
  the model. \<^verbatim>\<open>max(a, b)\<close> and \<^verbatim>\<open>min(a, b)\<close> return the first argument unless the
  second is strictly better; \<^verbatim>\<open>int(x)\<close> truncates towards zero.
\<close>

definition py_max :: "real \<Rightarrow> real \<Rightarrow> real" where
  "py_max a b = (if b > a then b else a)"

definition py_min :: "real \<Rightarrow> real \<Rightarrow> real" where
  "py_min a b = (if b < a then b else a)"

definition py_int :: "real \<Rightarrow> int" where
  "py_int x = (if x < 0 then \<lceil>x\<rceil> else \<lfloor>x\<rfloor>)"

text \<open>
  \<^verbatim>\<open>FINGER_NAMES\<close>. The builder's dict \<^verbatim>\<open>_fingers\<close> has exactly these five keys from
  \<^verbatim>\<open>__init__\<close> on, and no method adds or removes one: it is a function on the five
  fingers, and \<^verbatim>\<open>finger_name in self._fingers\<close> is \<open>finger_of_name\<close> finding a finger.
\<close>

datatype finger = Thumb | Index | Middle | Ring | Pinky

fun finger_name :: "finger \<Rightarrow> string" where
  "finger_name Thumb = ''thumb''"
| "finger_name Index = ''index''"
| "finger_name Middle = ''middle''"
| "finger_name Ring = ''ring''"
| "finger_name Pinky = ''pinky''"

definition FINGERS :: "finger list" where
  "FINGERS = [Thumb, Index, Middle, Ring, Pinky]"

definition FINGER_NAMES :: "string list" where
  "FINGER_NAMES = map finger_name FINGERS"

definition finger_of_name :: "string \<Rightarrow> finger option" where
  "finger_of_name n = find (\<lambda>f. finger_name f = n) FINGERS"

definition RAW_MAX :: int where
  "RAW_MAX = 4095"

text \<open>
  \<^verbatim>\<open>FingerState\<close>, and the builder's per-finger dict, which has the same entries and
  \<^verbatim>\<open>invert\<close> in addition.
\<close>

record finger_state =
  name :: string
  position :: real
  setpoint :: real
  calibrated :: bool
  enabled :: bool
  raw_min :: int
  raw_max :: int

record finger_data = finger_state +
  invert :: bool

record imu_state =
  roll :: real
  pitch :: real
  yaw :: real

record glove_state =
  gs_timestamp :: real
  gs_fingers :: "string \<Rightarrow> finger_state option"
  gs_imu :: imu_state
  gs_connected :: bool
  gs_calibrating :: bool
  gs_streaming :: bool
  gs_imu_streaming :: bool

datatype update_type = FINGER_POSITIONS | RAW_POSITIONS | IMU_HEADING

record state_update =
  update_type :: update_type
  update_values :: "real list"

record state_builder =
  fingers :: "finger \<Rightarrow> finger_data"
  imu :: imu_state
  calibrating :: bool
  streaming :: bool
  connected :: bool

definition new_builder :: state_builder where
  "new_builder =
     \<lparr>fingers = (\<lambda>f. \<lparr>name = finger_name f, position = 0, setpoint = 0, calibrated = False,
                       enabled = False, raw_min = RAW_MAX, raw_max = 0,
                       invert = (finger_name f = ''thumb'')\<rparr>),
      imu = \<lparr>roll = 0, pitch = 0, yaw = 0\<rparr>,
      calibrating = False, streaming = False, connected = False\<rparr>"

text \<open>The body of the loop of \<open>_apply_finger_positions\<close>, and the loop over the zip.\<close>

definition finger_position_step :: "finger_data \<Rightarrow> real \<Rightarrow> finger_data" where
  "finger_position_step fd v = fd\<lparr>position := py_max 0 (py_min 1 v)\<rparr>"

definition apply_finger_positions :: "state_builder \<Rightarrow> real list \<Rightarrow> state_builder" where
  "apply_finger_positions b vs =
     foldl (\<lambda>b (f, v). b\<lparr>fingers := (fingers b)(f := finger_position_step (fingers b f) v)\<rparr>)
       b (zip FINGERS vs)"

text \<open>The body of the loop of \<open>_apply_raw_positions\<close> for one finger and one value.\<close>

definition raw_position_step :: "bool \<Rightarrow> finger_data \<Rightarrow> real \<Rightarrow> finger_data" where
  "raw_position_step calib fd v =
     (let raw_value = py_max 0 (py_min (of_int RAW_MAX) v);
          fd1 = (if calib \<and> raw_value < of_int (raw_min fd)
                 then fd\<lparr>raw_min := py_int raw_value\<rparr> else fd);
          fd2 = (if calib \<and> raw_value > of_int (raw_max fd1)
                 then fd1\<lparr>raw_max := py_int raw_value\<rparr> else fd1);
          rmin = raw_min fd2;
          rmax = raw_max fd2
      in if calibrated fd2 \<and> rmax > rmin then
           let normalized = (raw_value - of_int rmin) / (of_int rmax - of_int rmin);
               normalized = py_max 0 (py_min 1 normalized);
               normalized = (if invert fd2 then 1 - normalized else normalized)
           in fd2\<lparr>position := normalized\<rparr>
         else fd2\<lparr>position := raw_value / of_int RAW_MAX\<rparr>)"

definition apply_raw_positions :: "state_builder \<Rightarrow> real list \<Rightarrow> state_builder" where
  "apply_raw_positions b vs =
     foldl (\<lambda>b (f, v). b\<lparr>fingers := (fingers b)(f := raw_position_step (calibrating b) (fingers b f) v)\<rparr>)
       b (zip FINGERS vs)"

definition apply_imu_heading :: "state_builder \<Rightarrow> real list \<Rightarrow> state_builder" where
  "apply_imu_heading b vs =
     (if length vs \<ge> 3 then b\<lparr>imu := \<lparr>roll = vs ! 0, pitch = vs ! 1, yaw = vs ! 2\<rparr>\<rparr> else b)"

definition apply_update :: "state_builder \<Rightarrow> state_update \<Rightarrow> state_builder" where
  "apply_update b u =
     (case update_type u of
        FINGER_POSITIONS \<Rightarrow> apply_finger_positions b (update_values u)
      | RAW_POSITIONS \<Rightarrow> apply_raw_positions b (update_values u)
      | IMU_HEADING \<Rightarrow> apply_imu_heading b (update_values u))"

definition snapshot :: "real \<Rightarrow> state_builder \<Rightarrow> glove_state" where
  "snapshot now b =
     \<lparr>gs_timestamp = now,
      gs_fingers = (\<lambda>n. map_option (\<lambda>f. finger_state.truncate (fingers b f)) (finger_of_name n)),
      gs_imu = imu b,
      gs_connected = connected b,
      gs_calibrating = calibrating b,
      gs_streaming = streaming b,
      gs_imu_streaming = False\<rparr>"

definition set_calibrating :: "state_builder \<Rightarrow> bool \<Rightarrow> state_builder" where
  "set_calibrating b c =
     (let b1 = b\<lparr>calibrating := c\<rparr>
      in if c then b1\<lparr>fingers := (\<lambda>f. (fingers b1 f)\<lparr>raw_min := RAW_MAX, raw_max := 0\<rparr>)\<rparr>
         else b1)"

definition set_streaming :: "state_builder \<Rightarrow> bool \<Rightarrow> state_builder" where
  "set_streaming b v = b\<lparr>streaming := v\<rparr>"

definition set_connected :: "state_builder \<Rightarrow> bool \<Rightarrow> state_builder" where
  "set_connected b v = b\<lparr>connected := v\<rparr>"

definition set_finger_enabled :: "state_builder \<Rightarrow> string \<Rightarrow> bool \<Rightarrow> state_builder" where
  "set_finger_enabled b n v =
     (case finger_of_name n of
        None \<Rightarrow> b
      | Some f \<Rightarrow> b\<lparr>fingers := (fingers b)(f := (fingers b f)\<lparr>enabled := v\<rparr>)\<rparr>)"

definition set_finger_setpoint :: "state_builder \<Rightarrow> string \<Rightarrow> real \<Rightarrow> state_builder" where
  "set_finger_setpoint b n v =
     (case finger_of_name n of
        None \<Rightarrow> b
      | Some f \<Rightarrow> b\<lparr>fingers := (fingers b)(f := (fingers b f)\<lparr>setpoint := py_max 0 (py_min 1 v)\<rparr>)\<rparr>)"

definition apply_calibration :: "state_builder \<Rightarrow> string \<Rightarrow> int \<Rightarrow> int \<Rightarrow> state_builder" where
  "apply_calibration b n lo hi =
     (case finger_of_name n of
        None \<Rightarrow> b
      | Some f \<Rightarrow>
          b\<lparr>fingers := (fingers b)(f := (fingers b f)\<lparr>raw_min := lo, raw_max := hi,
                                                      calibrated := (hi > lo)\<rparr>)\<rparr>)"

text \<open>A call on the builder, and a sequence of calls on a fresh builder.\<close>

datatype builder_op =
  Apply state_update
  | SetCalibrating bool
  | SetStreaming bool
  | SetConnected bool
  | SetFingerEnabled string bool
  | SetFingerSetpoint string real
  | ApplyCalibration string int int

fun builder_step :: "state_builder \<Rightarrow> builder_op \<Rightarrow> state_builder" where
  "builder_step b (Apply u) = apply_update b u"
| "builder_step b (SetCalibrating c) = set_calibrating b c"
| "builder_step b (SetStreaming v) = set_streaming b v"
| "builder_step b (SetConnected v) = set_connected b v"
| "builder_step b (SetFingerEnabled n v) = set_finger_enabled b n v"
| "builder_step b (SetFingerSetpoint n v) = set_finger_setpoint b n v"
| "builder_step b (ApplyCalibration n lo hi) = apply_calibration b n lo hi"

definition builder_run :: "builder_op list \<Rightarrow> state_builder" where
  "builder_run ops = foldl builder_step new_builder ops"

text \<open>
  Whether, at the end of a sequence of calls, no \<^verbatim>\<open>set_calibrating(True)\<close> has come after
  the last \<^verbatim>\<open>apply_calibration\<close> of the finger named \<open>n\<close> (after the start, if there was none).
\<close>

fun window_kept :: "string \<Rightarrow> bool \<Rightarrow> builder_op list \<Rightarrow> bool" where
  "window_kept n ok [] = ok"
| "window_kept n ok (ApplyCalibration n' lo hi # ops) = window_kept n (n' = n \<or> ok) ops"
| "window_kept n ok (SetCalibrating c # ops) = window_kept n (\<not> c \<and> ok) ops"
| "window_kept n ok (_ # ops) = window_kept n ok ops"

section \<open>Protocol parser (sdk/protocol/parser.py)\<close>

text \<open>
  \<^verbatim>\<open>s.replace(old, new, 1)\<close> replaces the first occurrence, \<^verbatim>\<open>s.replace(";", ",")\<close> every
  semicolon, and \<^verbatim>\<open>s.split(",")\<close> cuts at every comma, giving at least one piece.
\<close>

definition py_replace_first :: "string \<Rightarrow> string \<Rightarrow> string \<Rightarrow> string" where
  "py_replace_first old new s =
     (case find_sub old s of
        None \<Rightarrow> s
      | Some i \<Rightarrow> take i s @ new @ drop (i + length old) s)"

definition semicolons_to_commas :: "string \<Rightarrow> string" where
  "semicolons_to_commas s = map (\<lambda>c. if c = CHR '';'' then CHR '','' else c) s"

fun py_split :: "char \<Rightarrow> string \<Rightarrow> string list" where
  "py_split c [] = [[]]"
| "py_split c (x # xs) =
     (if x = c then [] # py_split c xs
      else case py_split c xs of
             t # ts \<Rightarrow> (x # t) # ts
           | [] \<Rightarrow> [[x]])"

text \<open>
  \<^verbatim>\<open>float(token)\<close> is a parameter of the parser: \<open>None\<close> where it raises \<^verbatim>\<open>ValueError\<close>.
  The loop of \<open>_parse_csv\<close> skips tokens that are empty after stripping and gives up
  with the empty list at the first token that is not a float.
\<close>

fun parse_tokens :: "(string \<Rightarrow> real option) \<Rightarrow> string list \<Rightarrow> real list \<Rightarrow> real list" where
  "parse_tokens py_float [] result = result"
| "parse_tokens py_float (token # tokens) result =
     (let token = py_strip token
      in if token = [] then parse_tokens py_float tokens result
         else case py_float token of
                None \<Rightarrow> []
              | Some x \<Rightarrow> parse_tokens py_float tokens (result @ [x]))"

definition parse_csv :: "(string \<Rightarrow> real option) \<Rightarrow> string \<Rightarrow> real list" where
  "parse_csv py_float payload =
     (let payload = py_rstrip (\<lambda>c. c = CHR ''>'') (py_lstrip (\<lambda>c. c = CHR ''<'') (py_strip payload))
      in if payload = [] then []
         else parse_tokens py_float (py_split CHR '','' (semicolons_to_commas payload)) [])"

definition parse_frame ::
  "(string \<Rightarrow> real option) \<Rightarrow> string \<Rightarrow> update_type \<Rightarrow> nat \<Rightarrow> string \<Rightarrow> state_update option" where
  "parse_frame py_float keyword kind arity line =
     (let payload = py_strip (py_replace_first keyword [] line);
          vs = parse_csv py_float payload
      in if length vs = arity then Some \<lparr>update_type = kind, update_values = vs\<rparr> else None)"

definition parse_line :: "(string \<Rightarrow> real option) \<Rightarrow> string \<Rightarrow> state_update option" where
  "parse_line py_float line =
     (let line = py_strip line
      in if line = [] then None
         else if starts_with line ''STRIMU'' then parse_frame py_float ''STRIMU'' IMU_HEADING 3 line
         else if starts_with line ''STREAM_RAW'' then parse_frame py_float ''STREAM_RAW'' RAW_POSITIONS 5 line
         else if starts_with line ''STREAM'' then parse_frame py_float ''STREAM'' FINGER_POSITIONS 5 line
         else None)"

text \<open>
  A float parser for concrete runs: it agrees with \<^verbatim>\<open>float\<close> on the five literals of the
  documented example and takes everything else as not a number.
\<close>

definition sample_float :: "string \<Rightarrow> real option" where
  "sample_float s =
     (if s = ''0.1'' then Some (1 / 10)
      else if s = ''0.2'' then Some (2 / 10)
      else if s = ''0.3'' then Some (3 / 10)
      else if s = ''0.4'' then Some (4 / 10)
      else if s = ''0.5'' then Some (5 / 10)
      else None)"

text \<open>The payload that a list of tokens makes when joined by commas.\<close>

fun join_commas :: "string list \<Rightarrow> string" where
  "join_commas [] = []"
| "join_commas [t] = t"
| "join_commas (t # t' # ts) = t @ CHR '','' # join_commas (t' # ts)"

section \<open>Protocol serializer (sdk/protocol/serializer.py)\<close>

text \<open>
  The format \<^verbatim>\<open>{value:.5f}\<close>: the value rounded to the nearest multiple of 0.00001, a tie
  going to the even one, printed with a sign if negative, the integer part, a point and
  five digits. \<^verbatim>\<open>{n}\<close> prints an integer in decimal.
\<close>

definition digit_char :: "nat \<Rightarrow> char" where
  "digit_char d = ''0123456789'' ! d"

function show_nat :: "nat \<Rightarrow> string" where
  "show_nat n = (if n < 10 then [digit_char n] else show_nat (n div 10) @ [digit_char (n mod 10)])"
  by pat_completeness auto
termination
  by (relation "measure id") auto

declare show_nat.simps [simp del]

definition show_int :: "int \<Rightarrow> string" where
  "show_int i = (if i < 0 then CHR ''-'' # show_nat (nat (- i)) else show_nat (nat i))"

definition round_half_even :: "real \<Rightarrow> int" where
  "round_half_even r =
     (let f = \<lfloor>r\<rfloor>; d = r - of_int f
      in if d < 1 / 2 then f else if d > 1 / 2 then f + 1 else if even f then f else f + 1)"

definition format_5f :: "real \<Rightarrow> string" where
  "format_5f x =
     (let n = nat (round_half_even (\<bar>x\<bar> * 100000));
          frac = n mod 100000
      in (if x < 0 then [CHR ''-''] else []) @ show_nat (n div 100000) @ [CHR ''.''] @
         [digit_char (frac div 10000), digit_char (frac div 1000 mod 10),
          digit_char (frac div 100 mod 10), digit_char (frac div 10 mod 10),
          digit_char (frac mod 10)])"

fun py_join :: "string \<Rightarrow> string list \<Rightarrow> string" where
  "py_join sep [] = []"
| "py_join sep [p] = p"
| "py_join sep (p # p' # ps) = p @ sep @ py_join sep (p' # ps)"

text \<open>
  The commands. A dict is the list of its items in insertion order, with \<open>map_of\<close> for
  \<^verbatim>\<open>dict.get\<close>; \<open>None\<close> is Python's \<^verbatim>\<open>None\<close>.
\<close>

datatype calibration_action = START | STOP

datatype stream_type = FINGER_POSITION | IMU

record setpoint_command =
  sp_fingers :: "(string \<times> real) list"
  side :: "string option"

record enable_command =
  en_fingers :: "(string \<times> bool) list option"
  en_enabled :: bool

record pid_command =
  kp :: "real option"
  kd :: "real option"
  pid_fingers :: "(string \<times> real option \<times> real option) list option"

record stream_command =
  stream_type :: stream_type
  start :: bool
  raw :: bool

record calibration_data =
  cal_timestamp :: real
  cal_fingers :: "(string \<times> int \<times> int \<times> bool) list"

datatype command =
  SetpointCommand setpoint_command
  | CalibrationCommand calibration_action
  | EnableCommand enable_command
  | PIDCommand pid_command
  | StreamCommand stream_command
  | ApplyCalibrationCommand calibration_data
  | RestartCommand

definition setpoint_part :: "setpoint_command \<Rightarrow> string \<Rightarrow> string" where
  "setpoint_part cmd fname =
     (let v = (case map_of (sp_fingers cmd) fname of None \<Rightarrow> 0 | Some v \<Rightarrow> v);
          v = py_max 0 (py_min 1 v)
      in ''-'' @ fname @ '' '' @ format_5f v)"

definition serialize_setpoint :: "setpoint_command \<Rightarrow> string" where
  "serialize_setpoint cmd =
     (let parts = [''!setSetpointAll''];
          parts = parts @ map (setpoint_part cmd) FINGER_NAMES;
          parts = (case side cmd of
                     None \<Rightarrow> parts
                   | Some sd \<Rightarrow> if sd \<in> {''both'', ''above'', ''below''}
                                 then parts @ [''-side '' @ sd] else parts)
      in py_join '' '' parts)"

definition serialize_calibration :: "calibration_action \<Rightarrow> string" where
  "serialize_calibration action =
     (if action = START then ''!startStreamFingerPos -raw 1'' else ''!stopStreamFingerPos'')"

definition enable_line :: "string \<Rightarrow> bool \<Rightarrow> string" where
  "enable_line fname en =
     ''!setFingerEnable -finger '' @ fname @ '' -enable '' @ (if en then ''1'' else ''0'')"

definition serialize_enable :: "enable_command \<Rightarrow> string" where
  "serialize_enable cmd =
     (case en_fingers cmd of
        None \<Rightarrow> py_join [CHR 0x0A] (map (\<lambda>fname. enable_line fname (en_enabled cmd)) FINGER_NAMES)
      | Some d \<Rightarrow> py_join [CHR 0x0A] (map (\<lambda>(fname, en). enable_line fname en) d))"

definition serialize_pid :: "pid_command \<Rightarrow> string" where
  "serialize_pid cmd =
     (let commands =
        (case pid_fingers cmd of
           None \<Rightarrow>
             (case kp cmd of None \<Rightarrow> [] | Some p \<Rightarrow> [''!setKpAll -kp '' @ format_5f p]) @
             (case kd cmd of None \<Rightarrow> [] | Some d \<Rightarrow> [''!setKdAll -kd '' @ format_5f d])
         | Some d \<Rightarrow>
             map (\<lambda>(fname, p, d).
                    py_join '' ''
                      ([''!setFingerPID -finger '' @ fname] @
                       (case p of None \<Rightarrow> [] | Some p \<Rightarrow> [''-kp '' @ format_5f p]) @
                       (case d of None \<Rightarrow> [] | Some d \<Rightarrow> [''-kd '' @ format_5f d]))) d)
      in if commands = [] then [] else py_join [CHR 0x0A] commands)"

definition serialize_stream :: "stream_command \<Rightarrow> string" where
  "serialize_stream cmd =
     (if stream_type cmd = FINGER_POSITION then
        (if start cmd then
           (if raw cmd then ''!startStreamFingerPos -raw 1'' else ''!startStreamFingerPos'')
         else ''!stopStreamFingerPos'')
      else (if start cmd then ''!startImuStream'' else ''!stopImuStream''))"

definition serialize_apply_calibration :: "calibration_data \<Rightarrow> string" where
  "serialize_apply_calibration cal =
     py_join [CHR 0x0A]
       (map (\<lambda>(fname, lo, hi, inv).
               ''!setFingerCalibration -finger '' @ fname @
               '' -min '' @ show_int lo @ '' -max '' @ show_int hi) (cal_fingers cal))"

fun serialize_command :: "command \<Rightarrow> string" where
  "serialize_command (SetpointCommand cmd) = serialize_setpoint cmd"
| "serialize_command (CalibrationCommand action) = serialize_calibration action"
| "serialize_command (EnableCommand cmd) = serialize_enable cmd"
| "serialize_command (PIDCommand cmd) = serialize_pid cmd"
| "serialize_command (StreamCommand cmd) = serialize_stream cmd"
| "serialize_command (ApplyCalibrationCommand cal) = serialize_apply_calibration cal"
| "serialize_command RestartCommand = ''!restart''"

section \<open>Facts about the sequence primitives\<close>

lemma find_sub_single_None: "find_sub [c] xs = None \<longleftrightarrow> c \<notin> set xs"
  by (induction xs) auto

lemma find_sub_single_Some:
  "find_sub [c] xs = Some i \<Longrightarrow> i < length xs \<and> xs ! i = c \<and> c \<notin> set (take i xs)"
proof (induction xs arbitrary: i)
  case Nil
  then show ?case by simp
next
  case (Cons x xs)
  show ?case
  proof (cases "x = c")
    case True
    with Cons.prems show ?thesis by simp
  next
    case False
    with Cons.prems obtain j where j: "find_sub [c] xs = Some j" "i = Suc j" by auto
    from Cons.IH [OF j(1)] False j(2) show ?thesis by simp
  qed
qed

section \<open>StreamBuffer: capacity and write\<close>

lemma buffer_write_empty: "buffer_write sb [] = sb"
  by (simp add: buffer_write_def)

lemma buffer_write_replace:
  assumes "0 < max_size sb" "max_size sb \<le> int (length data)"
  shows "buffer_write sb data =
           sb\<lparr>buffer := drop (length data - nat (max_size sb)) data,
              overflow_count := overflow_count sb + 1\<rparr>"
proof -
  from assms have ne: "data \<noteq> []" by auto
  from assms have "nat (max 0 (int (length data) - max_size sb)) = length data - nat (max_size sb)"
    by linarith
  with assms ne show ?thesis by (simp add: buffer_write_def py_slice_from_def)
qed

lemma buffer_write_drop_oldest:
  assumes "data \<noteq> []" "int (length data) < max_size sb"
    and "max_size sb < int (length (buffer sb)) + int (length data)"
  shows "buffer_write sb data =
           sb\<lparr>buffer := drop (length (buffer sb) + length data - nat (max_size sb)) (buffer sb) @ data,
              overflow_count := overflow_count sb + 1\<rparr>"
proof -
  let ?k = "int (length (buffer sb)) + int (length data) - max_size sb"
  from assms have k: "0 \<le> ?k" "nat ?k \<le> length (buffer sb)"
    "nat ?k = length (buffer sb) + length data - nat (max_size sb)" by linarith+
  then have "py_stop (buffer sb) ?k = length (buffer sb) + length data - nat (max_size sb)"
    by (simp add: py_stop_def)
  with assms show ?thesis by (simp add: buffer_write_def py_del_to_def Let_def)
qed

lemma buffer_write_append:
  assumes "data \<noteq> []" "int (length data) < max_size sb"
    and "int (length (buffer sb)) + int (length data) \<le> max_size sb"
  shows "buffer_write sb data = sb\<lparr>buffer := buffer sb @ data\<rparr>"
  using assms by (simp add: buffer_write_def Let_def)

lemma buffer_write_max_size: "max_size (buffer_write sb data) = max_size sb"
  by (simp add: buffer_write_def Let_def)

lemma buffer_write_within_capacity:
  assumes "0 < max_size sb"
  shows "int (length (buffer (buffer_write sb data))) \<le> max (max_size sb) (int (length (buffer sb)))"
proof -
  consider "data = []" | "data \<noteq> []" "max_size sb \<le> int (length data)"
    | "data \<noteq> []" "int (length data) < max_size sb"
      "max_size sb < int (length (buffer sb)) + int (length data)"
    | "data \<noteq> []" "int (length data) < max_size sb"
      "int (length (buffer sb)) + int (length data) \<le> max_size sb"
    by linarith
  then show ?thesis
  proof cases
    case 1
    then show ?thesis by (simp add: buffer_write_empty)
  next
    case 2
    with assms show ?thesis by (simp add: buffer_write_replace)
  next
    case 3
    then show ?thesis by (simp add: buffer_write_drop_oldest)
  next
    case 4
    then show ?thesis by (simp add: buffer_write_append)
  qed
qed

lemma read_shrinks: "length (buffer (snd (read sb n))) \<le> length (buffer sb)"
  by (simp add: read_def py_del_to_def)

lemma read_line_shrinks: "length (buffer (snd (read_line sb))) \<le> length (buffer sb)"
  by (simp add: read_line_def py_del_to_def Let_def split: option.splits)

lemma buffer_step_max_size: "max_size (buffer_step sb x) = max_size sb"
  by (cases x) (simp_all add: buffer_write_max_size read_def read_line_def clear_def Let_def split: option.splits)

lemma buffer_step_within_capacity:
  assumes "0 < max_size sb" "int (length (buffer sb)) \<le> max_size sb"
  shows "int (length (buffer (buffer_step sb x))) \<le> max_size sb"
proof (cases x)
  case (Write data)
  with buffer_write_within_capacity [OF assms(1), of data] assms(2) show ?thesis by simp
next
  case (Read n)
  with read_shrinks [of sb n] assms(2) show ?thesis by simp
next
  case ReadLine
  with read_line_shrinks [of sb] assms(2) show ?thesis by simp
next
  case Clear
  with assms show ?thesis by (simp add: clear_def)
qed

lemma buffer_run_within_capacity:
  "0 < max_size sb \<Longrightarrow> int (length (buffer sb)) \<le> max_size sb \<Longrightarrow>
   int (length (buffer (buffer_run sb xs))) \<le> max_size sb \<and> max_size (buffer_run sb xs) = max_size sb"
proof (induction xs arbitrary: sb)
  case Nil
  then show ?case by simp
next
  case (Cons x xs)
  have "0 < max_size (buffer_step sb x)"
    "int (length (buffer (buffer_step sb x))) \<le> max_size (buffer_step sb x)"
    using Cons.prems by (simp_all add: buffer_step_max_size buffer_step_within_capacity)
  from Cons.IH [OF this] show ?case by (simp add: buffer_step_max_size)
qed

section \<open>StreamBuffer: read_line\<close>

lemma find_sub_single_split:
  "c \<notin> set pre \<Longrightarrow> find_sub [c] (pre @ c # rest) = Some (length pre)"
  by (induction pre) auto

lemma read_line_at_newline:
  assumes "buffer sb = pre @ newline # rest" "newline \<notin> set pre"
  shows "read_line sb = (pre @ [newline], sb\<lparr>buffer := rest\<rparr>)"
proof -
  have "find_sub [newline] (buffer sb) = Some (length pre)"
    using assms by (simp add: find_sub_single_split)
  moreover have "py_stop (buffer sb) (int (length pre) + 1) = Suc (length pre)"
    using assms(1) by (simp add: py_stop_def)
  ultimately show ?thesis
    using assms(1) by (simp add: read_line_def py_slice_to_def py_del_to_def)
qed

lemma read_line_no_newline:
  assumes "newline \<notin> set (buffer sb)"
  shows "read_line sb = ([], sb)"
  using assms by (simp add: read_line_def find_sub_single_None [symmetric])

text \<open>
  C9. \<open>read_line\<close> returns the prefix up to and including the first newline byte and
  removes exactly those bytes when the buffer holds a newline; otherwise it returns the
  empty byte string and leaves the whole buffer state as it was, so that a second call
  on the unchanged buffer gives the same empty result.
\<close>

theorem read_line_first_newline:
  "(\<forall>pre rest. buffer sb = pre @ newline # rest \<and> newline \<notin> set pre \<longrightarrow>
       read_line sb = (pre @ [newline], sb\<lparr>buffer := rest\<rparr>)) \<and>
   (newline \<in> set (buffer sb) \<longrightarrow>
       (\<exists>pre rest. buffer sb = pre @ newline # rest \<and> newline \<notin> set pre)) \<and>
   (newline \<notin> set (buffer sb) \<longrightarrow>
       read_line sb = ([], sb) \<and> read_line (snd (read_line sb)) = ([], sb))"
proof (intro conjI allI impI)
  fix pre rest
  assume "buffer sb = pre @ newline # rest \<and> newline \<notin> set pre"
  then show "read_line sb = (pre @ [newline], sb\<lparr>buffer := rest\<rparr>)"
    by (simp add: read_line_at_newline)
next
  assume "newline \<in> set (buffer sb)"
  then show "\<exists>pre rest. buffer sb = pre @ newline # rest \<and> newline \<notin> set pre"
    by (metis split_list_first)
next
  assume "newline \<notin> set (buffer sb)"
  then show "read_line sb = ([], sb)" by (rule read_line_no_newline)
next
  assume a: "newline \<notin> set (buffer sb)"
  then have "read_line sb = ([], sb)" by (rule read_line_no_newline)
  then show "read_line (snd (read_line sb)) = ([], sb)" by simp
qed

theorem read_line_first_newline_witness:
  "read_line \<lparr>max_size = 8, buffer = [0x61, 0x0A, 0x62, 0x0A], overflow_count = 0\<rparr>
     = ([0x61, 0x0A], \<lparr>max_size = 8, buffer = [0x62, 0x0A], overflow_count = 0\<rparr>) \<and>
   read_line \<lparr>max_size = 8, buffer = [0x62], overflow_count = 0\<rparr>
     = ([], \<lparr>max_size = 8, buffer = [0x62], overflow_count = 0\<rparr>) \<and>
   read_line (snd (read_line \<lparr>max_size = 8, buffer = [0x62], overflow_count = 0\<rparr>))
     = ([], \<lparr>max_size = 8, buffer = [0x62], overflow_count = 0\<rparr>)"
proof -
  let ?a = "\<lparr>max_size = 8, buffer = [0x61, 0x0A, 0x62, 0x0A], overflow_count = 0\<rparr>"
  let ?b = "\<lparr>max_size = 8, buffer = [0x62], overflow_count = 0\<rparr>"
  have ha: "buffer ?a = [0x61] @ newline # [0x62, 0x0A] \<and> newline \<notin> set [0x61 :: byte]"
    by (simp add: newline_def)
  have hb: "newline \<notin> set (buffer ?b)"
    by (simp add: newline_def)
  from read_line_first_newline [of ?a] ha
  have "read_line ?a = ([0x61] @ [newline], ?a\<lparr>buffer := [0x62, 0x0A]\<rparr>)" by blast
  moreover from read_line_first_newline [of ?b] hb
  have "read_line ?b = ([], ?b) \<and> read_line (snd (read_line ?b)) = ([], ?b)" by blast
  ultimately show ?thesis by (simp add: newline_def)
qed

section \<open>StreamBuffer: a capacity of zero\<close>

text \<open>
  For every capacity of at least one byte the three branches of \<open>buffer_write\<close> are
  \<open>buffer_write_replace\<close>, \<open>buffer_write_drop_oldest\<close> and \<open>buffer_write_append\<close>,
  and \<open>buffer_run_within_capacity\<close> bounds the size. With \<^verbatim>\<open>max_size = 0\<close> the
  full-replace branch evaluates \<^verbatim>\<open>data[-0:]\<close>, which is all of \<^verbatim>\<open>data\<close>.
\<close>

text \<open>
  C3. A write whose length reaches the capacity is specified to leave exactly the last
  C bytes of the data. On a buffer of capacity 0 a one-byte write leaves that byte in
  the buffer instead of the last 0 bytes (nothing).
\<close>

theorem buffer_write_capacity_zero_keeps_data:
  "buffer_write (new_buffer 0) [0x61] = \<lparr>max_size = 0, buffer = [0x61], overflow_count = 1\<rparr> \<and>
   buffer (buffer_write (new_buffer 0) [0x61]) \<noteq> drop (length [0x61 :: byte] - nat 0) [0x61]"
  by (simp add: buffer_write_def new_buffer_def py_slice_from_def)

text \<open>
  C4. The number of bytes held is specified never to exceed the capacity. A buffer
  created with capacity 0 holds one byte after a one-byte write.
\<close>

theorem buffer_run_capacity_zero_exceeds:
  "buffer_size (buffer_run (new_buffer 0) [Write [0x61]]) = 1 \<and>
   max_size (buffer_run (new_buffer 0) [Write [0x61]]) = 0"
  by (simp add: buffer_write_def new_buffer_def py_slice_from_def buffer_size_def)

section \<open>StatusMonitor: frames across chunks\<close>

lemma trim_buffer_drop: "trim_buffer buf = drop (length buf - MAX_BUFFER_SIZE) buf"
  by (auto simp: trim_buffer_def py_slice_from_def MAX_BUFFER_SIZE_def nat_diff_distrib')

lemma trim_buffer_append: "trim_buffer (trim_buffer p @ c) = trim_buffer (p @ c)"
  by (cases "length p \<le> MAX_BUFFER_SIZE") (auto simp: trim_buffer_drop add.commute)

lemma starts_with_Cons_hd: "starts_with ys (p # ps) \<Longrightarrow> ys \<noteq> [] \<and> ys ! 0 = p"
  by (cases ys) auto

lemma find_sub_Some_starts: "find_sub sub xs = Some i \<Longrightarrow> starts_with (drop i xs) sub"
proof (induction xs arbitrary: i)
  case Nil
  then show ?case by (simp split: if_splits)
next
  case (Cons x xs)
  then show ?case by (auto split: if_splits)
qed

lemma find_sub_starts: "starts_with xs sub \<Longrightarrow> find_sub sub xs = Some 0"
  by (cases xs; cases sub) auto

lemma starts_with_append: "starts_with (sub @ ys) sub"
  by (simp add: starts_with_iff)

lemma find_sub_skip:
  "c \<notin> set pre \<Longrightarrow> find_sub (c # s) (pre @ ys) = map_option (\<lambda>i. i + length pre) (find_sub (c # s) ys)"
  by (induction pre) (auto simp: option.map_comp comp_def option.map_ident)

lemma frame_escape_positions:
  assumes "0xFF \<notin> set r" "j < length (0xFF # r @ [0xFF, 0x34 :: byte])"
    and "(0xFF # r @ [0xFF, 0x34 :: byte]) ! j = 0xFF"
  shows "j = 0 \<or> j = length r + 1"
proof (cases j)
  case 0
  then show ?thesis by simp
next
  case (Suc n)
  show ?thesis
  proof (cases "n < length r")
    case True
    then have "r ! n \<in> set r" by (rule nth_mem)
    with assms Suc True show ?thesis by (auto simp: nth_append)
  next
    case False
    with assms Suc have "n = length r \<or> n = length r + 1" by auto
    with assms Suc show ?thesis by (auto simp: nth_append)
  qed
qed


lemma find_sub_Some_head:
  assumes "find_sub (c # s) xs = Some i"
  shows "i + Suc (length s) \<le> length xs \<and> xs ! i = c"
proof -
  from find_sub_le [OF assms] have le: "i + Suc (length s) \<le> length xs" by simp
  from find_sub_Some_starts [OF assms] have "drop i xs ! 0 = c"
    by (simp add: starts_with_Cons_hd)
  with le show ?thesis by simp
qed

lemma no_frame_in_part:
  assumes nf: "0xFF \<notin> set payload"
    and pf: "p @ rest = ESC_STATUS_START @ payload @ ESC_STATUS_END"
    and part: "0 < k \<or> rest \<noteq> []"
  shows "try_extract_status lib (drop k p) = (drop k p, Inr None)"
proof -
  define r where "r = tl ESC_STATUS_START @ payload"
  have F: "p @ rest = 0xFF # r @ [0xFF, 0x34]"
    by (simp add: pf r_def ESC_STATUS_START_def ESC_STATUS_END_def)
  have r_nf: "0xFF \<notin> set r"
    using nf by (simp add: r_def ESC_STATUS_START_def)
  have len_r: "18 \<le> length r"
    by (simp add: r_def ESC_STATUS_START_def)
  have len: "length p + length rest = length r + 3"
    using arg_cong [OF F, of length] by simp
  have pos: "j = 0 \<or> j = length r + 1" if "j < length p" "p ! j = 0xFF" for j
  proof -
    from that have "(p @ rest) ! j = 0xFF" by (simp add: nth_append)
    moreover from that len have "j < length (0xFF # r @ [0xFF, 0x34 :: byte])" by simp
    ultimately show ?thesis using frame_escape_positions [OF r_nf, of j] F by simp
  qed
  have start_len: "length ESC_STATUS_START = 19" by (simp add: ESC_STATUS_START_def)
  have start_hd: "ESC_STATUS_START = 0xFF # tl ESC_STATUS_START" "length (tl ESC_STATUS_START) = 18"
    by (simp_all add: ESC_STATUS_START_def)
  show ?thesis
  proof (cases "find_sub ESC_STATUS_START (drop k p)")
    case None
    then show ?thesis by (simp add: try_extract_status_def)
  next
    case (Some i)
    then have "find_sub (0xFF # tl ESC_STATUS_START) (drop k p) = Some i"
      using start_hd(1) by simp
    from find_sub_Some_head [OF this] start_hd(2)
    have i: "i + 19 \<le> length (drop k p)" "drop k p ! i = 0xFF" by simp_all
    then have ki: "k + i + 19 \<le> length p" "p ! (k + i) = 0xFF" by simp_all
    with pos [of "k + i"] len len_r have "k + i = 0" by auto
    then have k0: "k = 0" "i = 0" by simp_all
    with part have rest: "rest \<noteq> []" by simp
    show ?thesis
    proof (cases "find_from ESC_STATUS_END p 19")
      case None
      with Some k0 start_len show ?thesis by (simp add: try_extract_status_def)
    next
      case e: (Some e)
      then obtain i' where i': "find_sub [0xFF, 0x34] (drop 19 p) = Some i'" "e = i' + 19"
        by (auto simp: find_from_def ESC_STATUS_END_def split: if_splits)
      from find_sub_Some_head [OF i'(1)] ki(1)
      have "19 + i' + 2 \<le> length p" by simp arith
      from find_sub_Some_head [OF i'(1)] ki(1)
      have "p ! (19 + i') = 0xFF" by simp
      have p255: "p ! (19 + i') = 0xFF" by fact
      have "19 + i' < length p" using \<open>19 + i' + 2 \<le> length p\<close> by simp
      from pos [OF this p255] have "19 + i' = length r + 1" by simp
      with \<open>19 + i' + 2 \<le> length p\<close> len have "length rest = 0" by arith
      then have "rest = []" by simp
      with rest show ?thesis by simp
    qed
  qed
qed

lemma process_loop_no_frame:
  assumes "try_extract_status lib (mon_buffer m) = (mon_buffer m, Inr None)"
  shows "process_loop lib m = (m, [], None)"
  by (subst process_loop.simps) (simp add: assms)

lemma frame_extract:
  assumes nf: "0xFF \<notin> set payload"
  shows "try_extract_status lib (ESC_STATUS_START @ payload @ ESC_STATUS_END @ rest)
           = (rest, parse_status_json lib payload)"
proof -
  let ?F = "ESC_STATUS_START @ payload @ ESC_STATUS_END @ rest"
  have s: "find_sub ESC_STATUS_START ?F = Some 0"
    by (rule find_sub_starts) (rule starts_with_append)
  have "find_sub (0xFF # [0x34]) (payload @ ESC_STATUS_END @ rest)
          = map_option (\<lambda>i. i + length payload) (find_sub (0xFF # [0x34]) (ESC_STATUS_END @ rest))"
    using nf by (rule find_sub_skip)
  moreover have "find_sub ESC_STATUS_END (ESC_STATUS_END @ rest) = Some 0"
    by (rule find_sub_starts) (rule starts_with_append)
  ultimately have "find_sub ESC_STATUS_END (payload @ ESC_STATUS_END @ rest) = Some (length payload)"
    by (simp add: ESC_STATUS_END_def)
  then have e: "find_from ESC_STATUS_END ?F (length ESC_STATUS_START)
                  = Some (length payload + length ESC_STATUS_START)"
    by (simp add: find_from_def)
  show ?thesis
    by (simp add: try_extract_status_def s e)
qed

lemma try_extract_status_Nil: "try_extract_status lib [] = ([], Inr None)"
  by (simp add: try_extract_status_def ESC_STATUS_START_def)


lemma process_loop_frame:
  assumes nf: "0xFF \<notin> set payload"
    and buf: "mon_buffer m = ESC_STATUS_START @ payload @ ESC_STATUS_END @ rest"
  shows "process_loop lib m =
           (case parse_status_json lib payload of
              Inl e \<Rightarrow> (m\<lparr>mon_buffer := rest\<rparr>, [], Some e)
            | Inr None \<Rightarrow> (m\<lparr>mon_buffer := rest\<rparr>, [], None)
            | Inr (Some status) \<Rightarrow>
                (case process_loop lib (m\<lparr>mon_buffer := rest, latest_status := Some status\<rparr>) of
                   (m', notified, e) \<Rightarrow> (m', status # notified, e)))"
  by (subst process_loop.simps) (simp add: buf frame_extract [OF nf] split: sum.splits option.splits)

lemma process_loop_Nil:
  "mon_buffer m = [] \<Longrightarrow> process_loop lib m = (m, [], None)"
  by (rule process_loop_no_frame) (simp add: try_extract_status_Nil)

lemma process_pending_empties:
  "\<forall>c \<in> set cs. c = [] \<Longrightarrow> process_pending lib m cs = (m, [], None)"
  by (induction cs) auto

lemma process_pending_reassembles:
  assumes nf: "0xFF \<notin> set payload"
  shows "p @ concat cs = ESC_STATUS_START @ payload @ ESC_STATUS_END \<Longrightarrow>
         mon_buffer m = trim_buffer p \<Longrightarrow> cs \<noteq> [] \<Longrightarrow> concat cs \<noteq> [] \<Longrightarrow>
         process_pending lib m cs =
           process_loop lib (m\<lparr>mon_buffer := trim_buffer (ESC_STATUS_START @ payload @ ESC_STATUS_END)\<rparr>)"
proof (induction cs arbitrary: p m)
  case Nil
  then show ?case by simp
next
  case (Cons c cs)
  let ?F = "ESC_STATUS_START @ payload @ ESC_STATUS_END"
  show ?case
  proof (cases "c = []")
    case True
    with Cons.prems have "cs \<noteq> []" "concat cs \<noteq> []" "p @ concat cs = ?F" by auto
    from Cons.IH [OF this(3) Cons.prems(2) this(1,2)] True show ?thesis by simp
  next
    case False
    let ?m1 = "m\<lparr>mon_buffer := trim_buffer (p @ c)\<rparr>"
    have pc: "process_chunk lib m c = process_loop lib ?m1"
      by (simp add: process_chunk_def Cons.prems(2) trim_buffer_append)
    show ?thesis
    proof (cases "concat cs = []")
      case True
      have "p @ concat (c # cs) = p @ c" unfolding concat.simps True by simp
      then have F: "p @ c = ?F" using Cons.prems(1) by (simp only:)
      from True have "process_pending lib m' cs = (m', [], None)" for m'
        by (intro process_pending_empties) auto
      with False pc F show ?thesis
        by (auto split: prod.splits option.splits)
    next
      case ne: False
      then have cs: "cs \<noteq> []" by auto
      have "try_extract_status lib (drop (length (p @ c) - MAX_BUFFER_SIZE) (p @ c))
              = (drop (length (p @ c) - MAX_BUFFER_SIZE) (p @ c), Inr None)"
        by (rule no_frame_in_part [OF nf, where rest = "concat cs"]) (use Cons.prems(1) ne in auto)
      then have "process_loop lib ?m1 = (?m1, [], None)"
        by (intro process_loop_no_frame) (simp add: trim_buffer_drop)
      moreover have "process_pending lib ?m1 cs = process_loop lib (?m1\<lparr>mon_buffer := trim_buffer ?F\<rparr>)"
        by (rule Cons.IH [where p = "p @ c"]) (use Cons.prems(1) cs ne in auto)
      ultimately show ?thesis using False pc by simp
    qed
  qed
qed

lemma trim_buffer_short: "length buf \<le> MAX_BUFFER_SIZE \<Longrightarrow> trim_buffer buf = buf"
  by (simp add: trim_buffer_def)

lemma process_chunk_whole_frame:
  assumes nf: "0xFF \<notin> set payload"
    and len: "length (ESC_STATUS_START @ payload @ ESC_STATUS_END @ rest) \<le> MAX_BUFFER_SIZE"
  shows "process_chunk lib (m\<lparr>mon_buffer := []\<rparr>) (ESC_STATUS_START @ payload @ ESC_STATUS_END @ rest) =
           (case parse_status_json lib payload of
              Inl e \<Rightarrow> (m\<lparr>mon_buffer := rest\<rparr>, [], Some e)
            | Inr None \<Rightarrow> (m\<lparr>mon_buffer := rest\<rparr>, [], None)
            | Inr (Some status) \<Rightarrow>
                (case process_loop lib (m\<lparr>mon_buffer := rest, latest_status := Some status\<rparr>) of
                   (m', notified, e) \<Rightarrow> (m', status # notified, e)))"
proof -
  let ?F = "ESC_STATUS_START @ payload @ ESC_STATUS_END @ rest"
  have "process_chunk lib (m\<lparr>mon_buffer := []\<rparr>) ?F = process_loop lib (m\<lparr>mon_buffer := ?F\<rparr>)"
    using trim_buffer_short [OF len] by (simp add: process_chunk_def)
  also have "\<dots> = (case parse_status_json lib payload of
              Inl e \<Rightarrow> (m\<lparr>mon_buffer := rest\<rparr>, [], Some e)
            | Inr None \<Rightarrow> (m\<lparr>mon_buffer := rest\<rparr>, [], None)
            | Inr (Some status) \<Rightarrow>
                (case process_loop lib (m\<lparr>mon_buffer := rest, latest_status := Some status\<rparr>) of
                   (m', notified, e) \<Rightarrow> (m', status # notified, e)))"
    using process_loop_frame [OF nf, of "m\<lparr>mon_buffer := ?F\<rparr>" rest lib]
    by (simp split: sum.splits option.splits)
  finally show ?thesis .
qed

text \<open>
  C5. A complete status frame (start marker, payload, end marker) whose payload is UTF-8
  text, hence free of the byte 0xFF, is cut into any number of consecutive chunks, empty
  ones included. Processing the chunks one after the other from an empty internal buffer
  gives the same monitor, the same notified statuses and the same outcome as processing
  the whole frame as one chunk; for a frame that fits the buffer and parses, that is
  exactly the one parsed status. The capture time is the clock reading of the library
  instance in both runs.
\<close>

theorem chunked_frame_same_status:
  assumes nf: "0xFF \<notin> set payload"
    and cat: "concat chunks = ESC_STATUS_START @ payload @ ESC_STATUS_END"
  shows "process_pending lib (m\<lparr>mon_buffer := []\<rparr>) chunks
           = process_chunk lib (m\<lparr>mon_buffer := []\<rparr>) (ESC_STATUS_START @ payload @ ESC_STATUS_END) \<and>
         (length (ESC_STATUS_START @ payload @ ESC_STATUS_END) \<le> MAX_BUFFER_SIZE \<longrightarrow>
          parse_status_json lib payload = Inr (Some status) \<longrightarrow>
          process_pending lib (m\<lparr>mon_buffer := []\<rparr>) chunks
            = (m\<lparr>mon_buffer := [], latest_status := Some status\<rparr>, [status], None))"
proof -
  let ?F = "ESC_STATUS_START @ payload @ ESC_STATUS_END"
  let ?m = "m\<lparr>mon_buffer := []\<rparr>"
  have ne: "concat chunks \<noteq> []" by (simp only: cat) (simp add: ESC_STATUS_END_def)
  then have ne': "chunks \<noteq> []" by auto
  have "process_pending lib ?m chunks = process_loop lib (?m\<lparr>mon_buffer := trim_buffer ?F\<rparr>)"
  proof (rule process_pending_reassembles [OF nf, where p = "[]"])
    show "[] @ concat chunks = ?F" using cat by simp
    show "mon_buffer ?m = trim_buffer []" by (simp add: trim_buffer_def)
    show "chunks \<noteq> []" by (rule ne')
    show "concat chunks \<noteq> []" by (rule ne)
  qed
  then have eq: "process_pending lib ?m chunks = process_chunk lib ?m ?F"
    by (simp add: process_chunk_def)
  have "process_chunk lib ?m ?F = (m\<lparr>mon_buffer := [], latest_status := Some status\<rparr>, [status], None)"
    if "length ?F \<le> MAX_BUFFER_SIZE" "parse_status_json lib payload = Inr (Some status)"
    using process_chunk_whole_frame [OF nf, of "[]" lib m] that
    by (simp add: process_loop_Nil)
  with eq show ?thesis by simp
qed

theorem chunked_frame_same_status_witness:
  "process_pending sample_lib new_monitor
     [[0xFF, 0x34, 0x5B, 0x53, 0x54], [],
      [0x41, 0x54, 0x55, 0x53, 0x5F, 0x52, 0x45, 0x53, 0x50, 0x4F, 0x4E, 0x53, 0x45, 0x5D, 0x7B],
      [0x7D, 0xFF], [0x34]]
     = process_chunk sample_lib new_monitor (ESC_STATUS_START @ [0x7B, 0x7D] @ ESC_STATUS_END) \<and>
   (\<exists>status. parse_status_json sample_lib [0x7B, 0x7D] = Inr (Some status) \<and>
      process_pending sample_lib new_monitor
        [[0xFF, 0x34, 0x5B, 0x53, 0x54], [],
         [0x41, 0x54, 0x55, 0x53, 0x5F, 0x52, 0x45, 0x53, 0x50, 0x4F, 0x4E, 0x53, 0x45, 0x5D, 0x7B],
         [0x7D, 0xFF], [0x34]]
        = (\<lparr>mon_buffer = [], latest_status = Some status\<rparr>, [status], None))"
proof -
  let ?cs = "[[0xFF, 0x34, 0x5B, 0x53, 0x54], [],
      [0x41, 0x54, 0x55, 0x53, 0x5F, 0x52, 0x45, 0x53, 0x50, 0x4F, 0x4E, 0x53, 0x45, 0x5D, 0x7B],
      [0x7D, 0xFF], [0x34 :: byte]]"
  have nf: "0xFF \<notin> set [0x7B, 0x7D :: byte]" by simp
  have cat: "concat ?cs = ESC_STATUS_START @ [0x7B, 0x7D] @ ESC_STATUS_END"
    by (simp add: ESC_STATUS_START_def ESC_STATUS_END_def)
  have len: "length (ESC_STATUS_START @ [0x7B, 0x7D :: byte] @ ESC_STATUS_END) \<le> MAX_BUFFER_SIZE"
    by (simp add: ESC_STATUS_START_def ESC_STATUS_END_def MAX_BUFFER_SIZE_def)
  obtain status where st: "parse_status_json sample_lib [0x7B, 0x7D] = Inr (Some status)"
    by (simp add: parse_status_json_def sample_lib_def py_strip_def py_lstrip_def
        py_rstrip_def py_isspace_def char_of_def bit_0)
  have m: "new_monitor\<lparr>mon_buffer := []\<rparr> = new_monitor" by (simp add: new_monitor_def)
  from chunked_frame_same_status [OF nf cat, of sample_lib new_monitor status] len st m
  show ?thesis by (auto simp: new_monitor_def)
qed

text \<open>
  A frame whose payload does not parse is removed from the buffer without a
  notification, and the extraction loop of that call ends there: whatever follows
  the frame stays in the buffer until the next chunk is processed.
\<close>

lemma process_chunk_invalid_frame:
  assumes "0xFF \<notin> set payload" "parse_status_json lib payload = Inr None"
    and "length (ESC_STATUS_START @ payload @ ESC_STATUS_END @ rest) \<le> MAX_BUFFER_SIZE"
  shows "process_chunk lib (m\<lparr>mon_buffer := []\<rparr>) (ESC_STATUS_START @ payload @ ESC_STATUS_END @ rest)
           = (m\<lparr>mon_buffer := rest\<rparr>, [], None)"
  using process_chunk_whole_frame [OF assms(1,3), of lib m] assms(2) by simp

text \<open>
  C2. A chunk holds a frame with an unparseable payload followed by a complete valid
  frame. The invalid frame is consumed without a notification, but the same call does
  not go on to the valid frame: it notifies nobody and leaves the valid frame in the
  buffer, although that frame alone in a chunk is extracted and notified.
\<close>

theorem invalid_frame_ends_extraction:
  "process_chunk sample_lib new_monitor
     (ESC_STATUS_START @ [0x7B, 0x78] @ ESC_STATUS_END @ ESC_STATUS_START @ [0x7B, 0x7D] @ ESC_STATUS_END)
     = (\<lparr>mon_buffer = ESC_STATUS_START @ [0x7B, 0x7D] @ ESC_STATUS_END, latest_status = None\<rparr>,
        [], None) \<and>
   length (fst (snd (process_chunk sample_lib new_monitor
     (ESC_STATUS_START @ [0x7B, 0x7D] @ ESC_STATUS_END)))) = 1"
proof -
  have m: "new_monitor = new_monitor\<lparr>mon_buffer := []\<rparr>" by (simp add: new_monitor_def)
  have bad: "parse_status_json sample_lib [0x7B, 0x78] = Inr None"
    by (simp add: parse_status_json_def sample_lib_def py_strip_def py_lstrip_def
        py_rstrip_def py_isspace_def char_of_def bit_0)
  obtain status where good: "parse_status_json sample_lib [0x7B, 0x7D] = Inr (Some status)"
    by (simp add: parse_status_json_def sample_lib_def py_strip_def py_lstrip_def
        py_rstrip_def py_isspace_def char_of_def bit_0)
  have "process_chunk sample_lib (new_monitor\<lparr>mon_buffer := []\<rparr>)
          (ESC_STATUS_START @ [0x7B, 0x78] @ ESC_STATUS_END @ ESC_STATUS_START @ [0x7B, 0x7D] @ ESC_STATUS_END)
        = (new_monitor\<lparr>mon_buffer := ESC_STATUS_START @ [0x7B, 0x7D] @ ESC_STATUS_END\<rparr>, [], None)"
    by (rule process_chunk_invalid_frame [OF _ bad])
       (simp_all add: ESC_STATUS_START_def ESC_STATUS_END_def MAX_BUFFER_SIZE_def)
  moreover have "process_chunk sample_lib (new_monitor\<lparr>mon_buffer := []\<rparr>)
          (ESC_STATUS_START @ [0x7B, 0x7D] @ ESC_STATUS_END @ [])
        = (new_monitor\<lparr>mon_buffer := [], latest_status := Some status\<rparr>, [status], None)"
    by (subst process_chunk_whole_frame)
       (simp_all add: good process_loop_Nil ESC_STATUS_START_def ESC_STATUS_END_def MAX_BUFFER_SIZE_def)
  ultimately show ?thesis
    by (simp add: new_monitor_def)
qed

section \<open>StateBuilder: snapshots and raw positions\<close>

lemma py_clamp_unit: "0 \<le> py_max 0 (py_min 1 v) \<and> py_max 0 (py_min 1 v) \<le> 1"
  by (simp add: py_max_def py_min_def)

lemma py_clamp_eq: "py_max lo (py_min hi v) = max lo (min hi v)"
  by (simp add: py_max_def py_min_def max_def min_def)

lemma foldl_fingers_step:
  assumes "distinct (map fst kvs)"
  shows "foldl (\<lambda>b (f, v). b\<lparr>fingers := (fingers b)(f := g (calibrating b) (fingers b f) v)\<rparr>) b kvs
           = b\<lparr>fingers := (\<lambda>f. case map_of kvs f of
                                  None \<Rightarrow> fingers b f
                                | Some v \<Rightarrow> g (calibrating b) (fingers b f) v)\<rparr>"
  using assms
proof (induction kvs arbitrary: b)
  case Nil
  then show ?case by simp
next
  case (Cons kv kvs)
  obtain k v where kv: "kv = (k, v)" by (cases kv)
  from Cons.prems kv have d: "distinct (map fst kvs)" and nk: "map_of kvs k = None"
    by (auto simp: map_of_eq_None_iff)
  show ?case
    unfolding kv foldl_Cons prod.case Cons.IH [OF d]
    using nk by (auto simp: fun_eq_iff split: option.splits)
qed

lemma distinct_zip_FINGERS: "distinct (map fst (zip FINGERS vs))"
proof -
  have "distinct FINGERS" by (simp add: FINGERS_def)
  then show ?thesis by (simp add: map_fst_zip_take)
qed

lemma apply_raw_positions_eq:
  "apply_raw_positions b vs
     = b\<lparr>fingers := (\<lambda>f. case map_of (zip FINGERS vs) f of
                            None \<Rightarrow> fingers b f
                          | Some v \<Rightarrow> raw_position_step (calibrating b) (fingers b f) v)\<rparr>"
  unfolding apply_raw_positions_def
  by (rule foldl_fingers_step [OF distinct_zip_FINGERS])

lemma apply_finger_positions_eq:
  "apply_finger_positions b vs
     = b\<lparr>fingers := (\<lambda>f. case map_of (zip FINGERS vs) f of
                            None \<Rightarrow> fingers b f
                          | Some v \<Rightarrow> finger_position_step (fingers b f) v)\<rparr>"
  unfolding apply_finger_positions_def
  by (rule foldl_fingers_step [OF distinct_zip_FINGERS, where g = "\<lambda>_. finger_position_step"])


lemma raw_clamp_range:
  "0 \<le> py_max 0 (py_min (of_int RAW_MAX) v) \<and> py_max 0 (py_min (of_int RAW_MAX) v) \<le> 4095"
  by (simp add: py_max_def py_min_def RAW_MAX_def)

lemma raw_position_step_eq:
  fixes v :: real and c :: bool and fd :: finger_data
  defines "r \<equiv> max 0 (min 4095 v)"
  defines "lo \<equiv> (if c then min (raw_min fd) \<lfloor>r\<rfloor> else raw_min fd)"
  defines "hi \<equiv> (if c then max (raw_max fd) \<lfloor>r\<rfloor> else raw_max fd)"
  shows "raw_position_step c fd v =
           fd\<lparr>position :=
                (if calibrated fd \<and> lo < hi then
                   (let x = max 0 (min 1 ((r - of_int lo) / (of_int hi - of_int lo)))
                    in if invert fd then 1 - x else x)
                 else r / 4095),
              raw_min := lo, raw_max := hi\<rparr>"
proof -
  have r: "py_max 0 (py_min (of_int RAW_MAX) v) = r" "0 \<le> r"
    by (simp_all add: r_def py_clamp_eq RAW_MAX_def)
  then have i: "py_int r = \<lfloor>r\<rfloor>" by (simp add: py_int_def)
  have lo: "(if c \<and> r < of_int (raw_min fd) then fd\<lparr>raw_min := py_int r\<rparr> else fd)
              = fd\<lparr>raw_min := lo\<rparr>"
  proof (cases "c \<and> r < of_int (raw_min fd)")
    case True
    then have "\<lfloor>r\<rfloor> < raw_min fd" by (simp add: floor_less_iff)
    with True show ?thesis by (simp add: lo_def i)
  next
    case False
    then have "c \<Longrightarrow> raw_min fd \<le> \<lfloor>r\<rfloor>" by (simp add: le_floor_iff)
    with False show ?thesis by (auto simp: lo_def)
  qed
  have hi: "(if c \<and> r > of_int (raw_max (fd\<lparr>raw_min := lo\<rparr>))
             then fd\<lparr>raw_min := lo\<rparr>\<lparr>raw_max := py_int r\<rparr> else fd\<lparr>raw_min := lo\<rparr>)
              = fd\<lparr>raw_min := lo, raw_max := hi\<rparr>"
  proof (cases "c \<and> r > of_int (raw_max fd)")
    case True
    then have "raw_max fd \<le> \<lfloor>r\<rfloor>" by (simp add: le_floor_iff)
    with True show ?thesis by (simp add: hi_def i)
  next
    case False
    then have "c \<Longrightarrow> \<lfloor>r\<rfloor> \<le> raw_max fd" by (simp add: floor_le_iff)
    with False show ?thesis by (auto simp: hi_def)
  qed
  show ?thesis
    unfolding raw_position_step_def r(1) Let_def lo hi
    by (simp add: py_clamp_eq RAW_MAX_def)
qed

lemma raw_position_step_unit:
  "0 \<le> position (raw_position_step c fd v) \<and> position (raw_position_step c fd v) \<le> 1"
proof -
  let ?r = "max 0 (min 4095 v)"
  have "0 \<le> ?r / 4095 \<and> ?r / 4095 \<le> 1" by simp
  then show ?thesis
    unfolding raw_position_step_eq
    by (auto simp: Let_def)
qed

lemma raw_position_step_same:
  "setpoint (raw_position_step c fd v) = setpoint fd"
  "calibrated (raw_position_step c fd v) = calibrated fd"
  "enabled (raw_position_step c fd v) = enabled fd"
  "invert (raw_position_step c fd v) = invert fd"
  "name (raw_position_step c fd v) = name fd"
  by (simp_all add: raw_position_step_eq)

lemma raw_position_step_order:
  assumes "calibrated fd \<longrightarrow> raw_min fd < raw_max fd"
  shows "calibrated (raw_position_step c fd v) \<longrightarrow>
           raw_min (raw_position_step c fd v) < raw_max (raw_position_step c fd v)"
  using assms by (auto simp: raw_position_step_eq)


lemma finger_of_name_Some: "finger_of_name n = Some f \<Longrightarrow> finger_name f = n"
  by (auto simp: finger_of_name_def FINGERS_def split: if_splits)

lemma finger_of_name_finger_name: "finger_of_name (finger_name f) = Some f"
  by (cases f) (simp_all add: finger_of_name_def FINGERS_def)

lemma builder_step_unit:
  assumes "\<forall>f. 0 \<le> position (fingers b f) \<and> position (fingers b f) \<le> 1 \<and>
               0 \<le> setpoint (fingers b f) \<and> setpoint (fingers b f) \<le> 1"
  shows "0 \<le> position (fingers (builder_step b x) f) \<and> position (fingers (builder_step b x) f) \<le> 1 \<and>
         0 \<le> setpoint (fingers (builder_step b x) f) \<and> setpoint (fingers (builder_step b x) f) \<le> 1"
proof (cases x)
  case (Apply u)
  show ?thesis
  proof (cases "update_type u")
    case FINGER_POSITIONS
    with Apply assms show ?thesis
      by (simp add: apply_update_def apply_finger_positions_eq finger_position_step_def
          py_clamp_unit split: option.splits)
  next
    case RAW_POSITIONS
    with Apply assms show ?thesis
      by (simp add: apply_update_def apply_raw_positions_eq raw_position_step_unit
          raw_position_step_same split: option.splits)
  next
    case IMU_HEADING
    with Apply assms show ?thesis
      by (simp add: apply_update_def apply_imu_heading_def)
  qed
next
  case (SetCalibrating c)
  with assms show ?thesis by (simp add: set_calibrating_def Let_def)
next
  case (SetStreaming v)
  with assms show ?thesis by (simp add: set_streaming_def)
next
  case (SetConnected v)
  with assms show ?thesis by (simp add: set_connected_def)
next
  case (SetFingerEnabled n v)
  with assms show ?thesis by (simp add: set_finger_enabled_def split: option.splits)
next
  case (SetFingerSetpoint n v)
  with assms show ?thesis
    by (simp add: set_finger_setpoint_def py_clamp_unit split: option.splits)
next
  case (ApplyCalibration n lo hi)
  with assms show ?thesis by (simp add: apply_calibration_def split: option.splits)
qed

lemma builder_run_unit:
  "0 \<le> position (fingers (builder_run xs) f) \<and> position (fingers (builder_run xs) f) \<le> 1 \<and>
   0 \<le> setpoint (fingers (builder_run xs) f) \<and> setpoint (fingers (builder_run xs) f) \<le> 1"
proof -
  have "\<forall>f. 0 \<le> position (fingers (foldl builder_step b xs) f) \<and>
            position (fingers (foldl builder_step b xs) f) \<le> 1 \<and>
            0 \<le> setpoint (fingers (foldl builder_step b xs) f) \<and>
            setpoint (fingers (foldl builder_step b xs) f) \<le> 1"
    if "\<forall>f. 0 \<le> position (fingers b f) \<and> position (fingers b f) \<le> 1 \<and>
               0 \<le> setpoint (fingers b f) \<and> setpoint (fingers b f) \<le> 1" for b
    using that
  proof (induction xs arbitrary: b)
    case Nil
    then show ?case by simp
  next
    case (Cons x xs)
    have "\<forall>f. 0 \<le> position (fingers (builder_step b x) f) \<and>
              position (fingers (builder_step b x) f) \<le> 1 \<and>
              0 \<le> setpoint (fingers (builder_step b x) f) \<and>
              setpoint (fingers (builder_step b x) f) \<le> 1"
      using builder_step_unit [OF Cons.prems] by blast
    from Cons.IH [OF this] show ?case by simp
  qed
  moreover have "\<forall>f. 0 \<le> position (fingers new_builder f) \<and> position (fingers new_builder f) \<le> 1 \<and>
               0 \<le> setpoint (fingers new_builder f) \<and> setpoint (fingers new_builder f) \<le> 1"
    by (simp add: new_builder_def)
  ultimately show ?thesis unfolding builder_run_def by blast
qed

lemma builder_step_order:
  assumes fn: "finger_of_name n = Some f"
    and J: "ok \<longrightarrow> calibrated (fingers b f) \<longrightarrow> raw_min (fingers b f) < raw_max (fingers b f)"
  shows "\<exists>ok'. (\<forall>xs. window_kept n ok (x # xs) = window_kept n ok' xs) \<and>
           (ok' \<longrightarrow> calibrated (fingers (builder_step b x) f) \<longrightarrow>
              raw_min (fingers (builder_step b x) f) < raw_max (fingers (builder_step b x) f))"
proof (cases x)
  case (Apply u)
  have "ok \<longrightarrow> calibrated (fingers (apply_update b u) f) \<longrightarrow>
          raw_min (fingers (apply_update b u) f) < raw_max (fingers (apply_update b u) f)"
  proof (cases "update_type u")
    case FINGER_POSITIONS
    with J show ?thesis
      by (simp add: apply_update_def apply_finger_positions_eq finger_position_step_def
          split: option.splits)
  next
    case RAW_POSITIONS
    with J raw_position_step_order show ?thesis
      by (simp add: apply_update_def apply_raw_positions_eq split: option.splits)
  next
    case IMU_HEADING
    with J show ?thesis by (simp add: apply_update_def apply_imu_heading_def)
  qed
  with Apply show ?thesis by (intro exI [of _ ok]) simp
next
  case (SetCalibrating c)
  with J show ?thesis
    by (intro exI [of _ "\<not> c \<and> ok"]) (simp add: set_calibrating_def Let_def)
next
  case (SetStreaming v)
  with J show ?thesis by (intro exI [of _ ok]) (simp add: set_streaming_def)
next
  case (SetConnected v)
  with J show ?thesis by (intro exI [of _ ok]) (simp add: set_connected_def)
next
  case (SetFingerEnabled n' v)
  with J show ?thesis
    by (intro exI [of _ ok]) (simp add: set_finger_enabled_def split: option.splits)
next
  case (SetFingerSetpoint n' v)
  with J show ?thesis
    by (intro exI [of _ ok]) (simp add: set_finger_setpoint_def split: option.splits)
next
  case (ApplyCalibration n' lo hi)
  show ?thesis
  proof (cases "n' = n")
    case True
    with ApplyCalibration fn show ?thesis
      by (intro exI [of _ True]) (simp add: apply_calibration_def)
  next
    case False
    then have "finger_of_name n' \<noteq> Some f" using fn by (auto dest: finger_of_name_Some)
    with ApplyCalibration False J show ?thesis
      by (intro exI [of _ ok]) (auto simp: apply_calibration_def split: option.splits)
  qed
qed

lemma foldl_builder_step_order:
  assumes fn: "finger_of_name n = Some f"
  shows "ok \<longrightarrow> calibrated (fingers b f) \<longrightarrow> raw_min (fingers b f) < raw_max (fingers b f) \<Longrightarrow>
         window_kept n ok xs \<Longrightarrow> calibrated (fingers (foldl builder_step b xs) f) \<Longrightarrow>
         raw_min (fingers (foldl builder_step b xs) f) < raw_max (fingers (foldl builder_step b xs) f)"
proof (induction xs arbitrary: b ok)
  case Nil
  then show ?case by simp
next
  case (Cons x xs)
  from builder_step_order [OF fn Cons.prems(1), of x] obtain ok' where
    ok': "\<forall>xs. window_kept n ok (x # xs) = window_kept n ok' xs"
    "ok' \<longrightarrow> calibrated (fingers (builder_step b x) f) \<longrightarrow>
       raw_min (fingers (builder_step b x) f) < raw_max (fingers (builder_step b x) f)"
    by blast
  from Cons.prems(2) ok'(1) have "window_kept n ok' xs" by simp
  from Cons.IH [OF ok'(2) this] Cons.prems(3) show ?case by simp
qed


lemma map_of_zip_nth_shorter:
  "distinct xs \<Longrightarrow> i < length xs \<Longrightarrow> i < length ys \<Longrightarrow> map_of (zip xs ys) (xs ! i) = Some (ys ! i)"
proof (induction xs arbitrary: ys i)
  case Nil
  then show ?case by simp
next
  case (Cons x xs)
  then obtain y ys' where ys: "ys = y # ys'" by (cases ys) auto
  show ?case
  proof (cases i)
    case 0
    with ys show ?thesis by simp
  next
    case (Suc j)
    with Cons.prems ys have "xs ! j \<in> set xs" "x \<notin> set xs" by auto
    then have "xs ! j \<noteq> x" by auto
    with Cons.IH [of j ys'] Cons.prems ys Suc show ?thesis by simp
  qed
qed

text \<open>
  C1, as the code has it. After any sequence of calls on a fresh builder, every
  FingerState of a snapshot has its position and its setpoint in [0,1]. A finger that is
  calibrated has \<open>raw_min < raw_max\<close> as long as \<^verbatim>\<open>set_calibrating(True)\<close> has not been called
  since that finger's last \<^verbatim>\<open>apply_calibration\<close>: turning calibration on resets every
  window to (4095, 0) and leaves \<^verbatim>\<open>calibrated\<close> as it is, which the guard
  \<^verbatim>\<open>finger_data["calibrated"] and raw_max > raw_min\<close> of \<open>_apply_raw_positions\<close> allows for.
\<close>

theorem snapshot_fingers_bounded:
  assumes "gs_fingers (snapshot now (builder_run xs)) n = Some fs"
  shows "0 \<le> position fs \<and> position fs \<le> 1 \<and> 0 \<le> setpoint fs \<and> setpoint fs \<le> 1 \<and>
         (calibrated fs \<and> window_kept n True xs \<longrightarrow> raw_min fs < raw_max fs)"
proof -
  from assms obtain f where fn: "finger_of_name n = Some f"
    and fs: "fs = finger_state.truncate (fingers (builder_run xs) f)"
    by (auto simp: snapshot_def)
  have "calibrated (fingers (builder_run xs) f) \<Longrightarrow> window_kept n True xs \<Longrightarrow>
          raw_min (fingers (builder_run xs) f) < raw_max (fingers (builder_run xs) f)"
    unfolding builder_run_def
    by (rule foldl_builder_step_order [OF fn, where ok = True]) (simp_all add: new_builder_def)
  with builder_run_unit [of xs f] show ?thesis
    by (simp add: fs finger_state.truncate_def)
qed

theorem snapshot_fingers_bounded_witness:
  "\<exists>fs. gs_fingers (snapshot 0 (builder_run
            [SetCalibrating True, ApplyCalibration ''thumb'' 100 4000, SetFingerSetpoint ''thumb'' (3 / 2),
             Apply \<lparr>update_type = RAW_POSITIONS, update_values = [2050, 0, 0, 0, 0]\<rparr>])) ''thumb'' = Some fs \<and>
         calibrated fs \<and>
         window_kept ''thumb'' True
            [SetCalibrating True, ApplyCalibration ''thumb'' 100 4000, SetFingerSetpoint ''thumb'' (3 / 2),
             Apply \<lparr>update_type = RAW_POSITIONS, update_values = [2050, 0, 0, 0, 0]\<rparr>] \<and>
         0 \<le> position fs \<and> position fs \<le> 1 \<and> 0 \<le> setpoint fs \<and> setpoint fs \<le> 1 \<and>
         raw_min fs < raw_max fs"
proof -
  let ?xs = "[SetCalibrating True, ApplyCalibration ''thumb'' 100 4000, SetFingerSetpoint ''thumb'' (3 / 2),
             Apply \<lparr>update_type = RAW_POSITIONS, update_values = [2050, 0, 0, 0, 0]\<rparr>]"
  have e: "gs_fingers (snapshot 0 (builder_run ?xs)) ''thumb'' =
             Some \<lparr>name = ''thumb'', position = 1 / 2, setpoint = 1, calibrated = True,
                   enabled = False, raw_min = 100, raw_max = 4000\<rparr>"
    by (simp add: snapshot_def builder_run_def finger_of_name_def FINGERS_def new_builder_def
        set_calibrating_def apply_calibration_def set_finger_setpoint_def apply_update_def
        apply_raw_positions_eq raw_position_step_eq finger_state.truncate_def
        py_max_def py_min_def RAW_MAX_def Let_def)
  have w: "window_kept ''thumb'' True ?xs" by simp
  from snapshot_fingers_bounded [OF e] w e show ?thesis by simp
qed

text \<open>
  C1, as stated, fails: after \<^verbatim>\<open>apply_calibration("thumb", 100, 4000)\<close> and
  \<^verbatim>\<open>set_calibrating(True)\<close> the snapshot's thumb is calibrated with raw_min 4095 and
  raw_max 0.
\<close>

theorem calibrated_after_window_reset:
  "gs_fingers (snapshot 0 (builder_run [ApplyCalibration ''thumb'' 100 4000, SetCalibrating True])) ''thumb''
     = Some \<lparr>name = ''thumb'', position = 0, setpoint = 0, calibrated = True,
             enabled = False, raw_min = 4095, raw_max = 0\<rparr> \<and>
   map_option (\<lambda>fs. calibrated fs \<and> \<not> raw_max fs > raw_min fs)
     (gs_fingers (snapshot 0 (builder_run [ApplyCalibration ''thumb'' 100 4000, SetCalibrating True])) ''thumb'')
     = Some True"
  by (simp add: snapshot_def builder_run_def finger_of_name_def FINGERS_def new_builder_def
      set_calibrating_def apply_calibration_def finger_state.truncate_def RAW_MAX_def Let_def)


text \<open>
  C6, as the code has it. A raw-positions update gives the i-th value to the i-th finger
  (as far as values and fingers go). The value is clamped to [0, 4095]. In calibration
  mode the finger's window is widened to include the integer part of the clamped value
  (\<^verbatim>\<open>int(raw_value)\<close>), hence the clamped value itself when that is a whole number. Then the
  position is the normalised value clamped to [0,1], inverted for an inverted finger, when
  the finger is calibrated and the window is not empty, and the clamped value over 4095
  otherwise.
\<close>

theorem raw_positions_update:
  assumes "i < length vs" "i < length FINGERS"
  shows "let f = FINGERS ! i;
             r = max 0 (min 4095 (vs ! i));
             fd = fingers b f;
             fd' = fingers (apply_update b \<lparr>update_type = RAW_POSITIONS, update_values = vs\<rparr>) f
         in 0 \<le> r \<and> r \<le> 4095 \<and>
            raw_min fd' = (if calibrating b then min (raw_min fd) \<lfloor>r\<rfloor> else raw_min fd) \<and>
            raw_max fd' = (if calibrating b then max (raw_max fd) \<lfloor>r\<rfloor> else raw_max fd) \<and>
            (calibrating b \<longrightarrow> raw_min fd' \<le> \<lfloor>r\<rfloor> \<and> \<lfloor>r\<rfloor> \<le> raw_max fd') \<and>
            (calibrating b \<and> r = of_int \<lfloor>r\<rfloor> \<longrightarrow> of_int (raw_min fd') \<le> r \<and> r \<le> of_int (raw_max fd')) \<and>
            calibrated fd' = calibrated fd \<and> invert fd' = invert fd \<and>
            position fd' =
              (if calibrated fd' \<and> raw_min fd' < raw_max fd' then
                 (let x = max 0 (min 1 ((r - of_int (raw_min fd')) / (of_int (raw_max fd') - of_int (raw_min fd'))))
                  in if invert fd' then 1 - x else x)
               else r / 4095)"
proof -
  have d: "distinct FINGERS" by (simp add: FINGERS_def)
  have m: "map_of (zip FINGERS vs) (FINGERS ! i) = Some (vs ! i)"
    using d assms(2,1) by (rule map_of_zip_nth_shorter)
  have fd': "fingers (apply_update b \<lparr>update_type = RAW_POSITIONS, update_values = vs\<rparr>) (FINGERS ! i)
               = raw_position_step (calibrating b) (fingers b (FINGERS ! i)) (vs ! i)"
    by (simp add: apply_update_def apply_raw_positions_eq m)
  have w: "of_int (min lo \<lfloor>r\<rfloor>) \<le> r \<and> r \<le> of_int (max hi \<lfloor>r\<rfloor>)"
    if "r = of_int \<lfloor>r\<rfloor>" for r :: real and lo hi :: int
  proof -
    have "of_int (min lo \<lfloor>r\<rfloor>) \<le> (of_int \<lfloor>r\<rfloor> :: real)" "(of_int \<lfloor>r\<rfloor> :: real) \<le> of_int (max hi \<lfloor>r\<rfloor>)"
      by (simp_all only: of_int_le_iff)
    with that show ?thesis by simp
  qed
  show ?thesis
    unfolding Let_def fd' raw_position_step_eq
    using w [of "max 0 (min 4095 (vs ! i))" "raw_min (fingers b (FINGERS ! i))" "raw_max (fingers b (FINGERS ! i))"]
    by (simp add: Let_def)
qed

theorem raw_positions_update_witness:
  "(1::nat) < length [10, 2050 :: real] \<and> 1 < length FINGERS \<and>
   fingers (apply_update (builder_run [SetCalibrating True, ApplyCalibration ''index'' 100 4000])
              \<lparr>update_type = RAW_POSITIONS, update_values = [10, 2050]\<rparr>) Index
     = \<lparr>name = ''index'', position = 1 / 2, setpoint = 0, calibrated = True, enabled = False,
        raw_min = 100, raw_max = 4000, invert = False\<rparr>"
proof -
  let ?b = "builder_run [SetCalibrating True, ApplyCalibration ''index'' 100 4000]"
  let ?fd' = "fingers (apply_update ?b \<lparr>update_type = RAW_POSITIONS, update_values = [10, 2050]\<rparr>) Index"
  have h: "(1::nat) < length [10, 2050 :: real]" "1 < length FINGERS"
    by (simp_all add: FINGERS_def)
  have b: "fingers ?b Index = \<lparr>name = ''index'', position = 0, setpoint = 0, calibrated = True,
             enabled = False, raw_min = 100, raw_max = 4000, invert = False\<rparr>" "calibrating ?b"
    by (simp_all add: builder_run_def finger_of_name_def FINGERS_def new_builder_def
        set_calibrating_def apply_calibration_def RAW_MAX_def Let_def)
  have same: "name ?fd' = ''index'' \<and> setpoint ?fd' = 0 \<and> enabled ?fd' = False"
    by (simp add: apply_update_def apply_raw_positions_eq raw_position_step_same b FINGERS_def)
  from raw_positions_update [OF h, of ?b] b
  have "raw_min ?fd' = 100 \<and> raw_max ?fd' = 4000 \<and> calibrated ?fd' \<and> \<not> invert ?fd' \<and>
        position ?fd' = 1 / 2"
    by (simp add: Let_def FINGERS_def)
  with same h show ?thesis by (cases ?fd') simp
qed

text \<open>
  C6, as stated, fails where a raw value has a fractional part: in calibration mode with a
  fresh window the value 100.5 leaves the window at [100, 100], which does not include the
  clamped value 100.5.
\<close>

theorem raw_window_excludes_fraction:
  "raw_min (fingers (apply_update (builder_run [SetCalibrating True])
              \<lparr>update_type = RAW_POSITIONS, update_values = [201 / 2, 0, 0, 0, 0]\<rparr>) Thumb) = 100 \<and>
   raw_max (fingers (apply_update (builder_run [SetCalibrating True])
              \<lparr>update_type = RAW_POSITIONS, update_values = [201 / 2, 0, 0, 0, 0]\<rparr>) Thumb) = 100 \<and>
   py_max 0 (py_min (of_int RAW_MAX) (201 / 2)) = 201 / 2 \<and>
   \<not> (201 / 2 \<le> real_of_int 100)"
  by (simp add: builder_run_def FINGERS_def new_builder_def set_calibrating_def apply_update_def
      apply_raw_positions_eq raw_position_step_eq py_max_def py_min_def RAW_MAX_def Let_def)

end
